theory Spec2Isabelle
  imports Main "HOL-Library.Sublist"
begin

section \<open>Python strings\<close>

text \<open>
  A Python \<open>str\<close> is a sequence of Unicode code points, and every operation of
  \<open>misaki/pl.py\<close> (\<open>replace\<close>, \<open>split\<close>, \<open>strip\<close>, \<open>len\<close>, the regular expressions)
  counts code points. A string is therefore a list of code points, each a natural number.
  ASCII literals of the source are written \<open>asc ''...''\<close>; other characters are written
  by their code point.
\<close>

type_synonym ustring = "nat list"

definition asc :: "string \<Rightarrow> ustring" where
  "asc s = map of_char s"

text \<open>
  \<open>str.isspace\<close> of a single character; the same set decides what \<open>str.strip()\<close> and
  \<open>str.split()\<close> remove and what \<open>\s\<close> matches in a \<open>str\<close> pattern of \<open>re\<close>.
\<close>

definition isspace :: "nat \<Rightarrow> bool" where
  "isspace c \<longleftrightarrow>
     (0x09 \<le> c \<and> c \<le> 0x0D) \<or> (0x1C \<le> c \<and> c \<le> 0x20) \<or> c = 0x85 \<or> c = 0xA0 \<or>
     c = 0x1680 \<or> (0x2000 \<le> c \<and> c \<le> 0x200A) \<or> c = 0x2028 \<or> c = 0x2029 \<or>
     c = 0x202F \<or> c = 0x205F \<or> c = 0x3000"

text \<open>\<open>s.strip()\<close>: leading and trailing whitespace removed.\<close>

definition str_strip :: "ustring \<Rightarrow> ustring" where
  "str_strip s = rev (dropWhile isspace (rev (dropWhile isspace s)))"

text \<open>\<open>s.rstrip(chars)\<close>: trailing characters that occur in \<open>chars\<close> removed.\<close>

definition str_rstrip :: "ustring \<Rightarrow> ustring \<Rightarrow> ustring" where
  "str_rstrip chars s = rev (dropWhile (\<lambda>c. c \<in> set chars) (rev s))"

text \<open>
  \<open>s.split()\<close>: the maximal runs of non-whitespace characters, in order. The first
  argument of \<open>split_acc\<close> is the run read so far.
\<close>

fun split_acc :: "ustring \<Rightarrow> ustring \<Rightarrow> ustring list" where
  "split_acc w [] = (if w = [] then [] else [w])"
| "split_acc w (c # cs) =
     (if isspace c then (if w = [] then split_acc [] cs else w # split_acc [] cs)
      else split_acc (w @ [c]) cs)"

definition str_split :: "ustring \<Rightarrow> ustring list" where
  "str_split s = split_acc [] s"

text \<open>\<open>sep.join(ws)\<close>.\<close>

fun str_join :: "ustring \<Rightarrow> ustring list \<Rightarrow> ustring" where
  "str_join sep [] = []"
| "str_join sep [w] = w"
| "str_join sep (w # ws) = w @ sep @ str_join sep ws"

text \<open>
  \<open>s.replace(old, new)\<close>: the occurrences of \<open>old\<close> are found from left to right without
  overlap and each is replaced by \<open>new\<close>. With an empty \<open>old\<close> Python puts \<open>new\<close> before
  every character and at the end.
\<close>

function replace_nonempty :: "ustring \<Rightarrow> ustring \<Rightarrow> ustring \<Rightarrow> ustring" where
  "replace_nonempty old new [] = []"
| "replace_nonempty old new (c # cs) =
     (if old \<noteq> [] \<and> prefix old (c # cs)
      then new @ replace_nonempty old new (drop (length old) (c # cs))
      else c # replace_nonempty old new cs)"
  by pat_completeness auto
termination
  by (relation "measure (\<lambda>(old, new, s). length s)") auto

definition str_replace :: "ustring \<Rightarrow> ustring \<Rightarrow> ustring \<Rightarrow> ustring" where
  "str_replace old new s =
     (if old = [] then new @ concat (map (\<lambda>c. c # new) s) else replace_nonempty old new s)"

text \<open>
  \<open>s.lower()\<close>. The lower-case mapping is written out for the code points up to U+017F
  (Basic Latin, Latin-1 Supplement and Latin Extended-A, which hold every Polish letter);
  a code point above U+017F is left as it is. U+0130 is the one code point of the range
  whose lower case is two code points.
\<close>

definition lower_cp :: "nat \<Rightarrow> ustring" where
  "lower_cp c =
     (if 0x41 \<le> c \<and> c \<le> 0x5A then [c + 32]
      else if 0xC0 \<le> c \<and> c \<le> 0xDE \<and> c \<noteq> 0xD7 then [c + 32]
      else if c = 0x130 then [0x69, 0x307]
      else if c = 0x178 then [0xFF]
      else if ((0x100 \<le> c \<and> c \<le> 0x137) \<or> (0x14A \<le> c \<and> c \<le> 0x177)) \<and> even c then [c + 1]
      else if ((0x139 \<le> c \<and> c \<le> 0x148) \<or> (0x179 \<le> c \<and> c \<le> 0x17E)) \<and> odd c then [c + 1]
      else [c])"

definition str_lower :: "ustring \<Rightarrow> ustring" where
  "str_lower s = concat (map lower_cp s)"

section \<open>PLCleaner\<close>

text \<open>The dictionary \<open>replacements\<close> of \<open>PLCleaner._normalize_unicode\<close>, in insertion order.\<close>

definition replacements :: "(ustring \<times> ustring) list" where
  "replacements =
   [([0x0105], [0x0105]), ([0x0107], [0x0107]), ([0x0119], [0x0119]), ([0x0142], [0x0142]),
    ([0x0144], [0x0144]), ([0x00F3], [0x00F3]), ([0x015B], [0x015B]), ([0x017A], [0x017A]),
    ([0x017C], [0x017C]),
    ([0x0104], [0x0104]), ([0x0106], [0x0106]), ([0x0118], [0x0118]), ([0x0141], [0x0141]),
    ([0x0143], [0x0143]), ([0x00D3], [0x00D3]), ([0x015A], [0x015A]), ([0x0179], [0x0179]),
    ([0x017B], [0x017B])]"

text \<open>\<open>for old, new in table: text = text.replace(old, new)\<close>.\<close>

definition replace_all :: "(ustring \<times> ustring) list \<Rightarrow> ustring \<Rightarrow> ustring" where
  "replace_all table text = fold (\<lambda>(old, new) t. str_replace old new t) table text"

definition normalize_unicode :: "ustring \<Rightarrow> ustring" where
  "normalize_unicode text = replace_all replacements text"

text \<open>The class attribute \<open>PLCleaner.ABBREVIATIONS\<close>, in insertion order.\<close>

definition ABBREVIATIONS :: "(ustring \<times> ustring) list" where
  "ABBREVIATIONS =
   [(asc ''dr'', asc ''doktor''),
    (asc ''prof.'', asc ''profesor''),
    (asc ''mgr'', asc ''magister''),
    (asc ''in'' @ [0x017C] @ asc ''.'', asc ''in'' @ [0x017C] @ asc ''ynier''),
    (asc ''ul.'', asc ''ulica''),
    (asc ''al.'', asc ''aleja''),
    (asc ''pl.'', asc ''plac''),
    (asc ''nr'', asc ''numer''),
    (asc ''tel.'', asc ''telefon''),
    (asc ''godz.'', asc ''godzina''),
    (asc ''min.'', asc ''minuta''),
    (asc ''sek.'', asc ''sekunda''),
    (asc ''tys.'', asc ''tysi'' @ [0x0119] @ asc ''cy''),
    (asc ''mln'', asc ''milion'' @ [0x00F3] @ asc ''w''),
    (asc ''mld'', asc ''miliard'' @ [0x00F3] @ asc ''w''),
    (asc ''z'' @ [0x0142], asc ''z'' @ [0x0142] @ asc ''otych''),
    (asc ''gr'', asc ''groszy''),
    (asc ''r.'', asc ''roku''),
    (asc ''w.'', asc ''wieku''),
    (asc ''n.e.'', asc ''naszej ery''),
    (asc ''p.n.e.'', asc ''przed nasz'' @ [0x0105] @ asc '' er'' @ [0x0105]),
    (asc ''itd.'', asc ''i tak dalej''),
    (asc ''itp.'', asc ''i tym podobne''),
    (asc ''np.'', asc ''na przyk'' @ [0x0142] @ asc ''ad''),
    (asc ''tj.'', asc ''to jest''),
    (asc ''tzn.'', asc ''to znaczy''),
    (asc ''tzw.'', asc ''tak zwany''),
    (asc ''wg'', asc ''wed'' @ [0x0142] @ asc ''ug''),
    (asc ''ws.'', asc ''w sprawie''),
    (asc ''ds.'', asc ''do spraw''),
    (asc ''ok.'', asc ''oko'' @ [0x0142] @ asc ''o''),
    (asc ''ca'', asc ''oko'' @ [0x0142] @ asc ''o''),
    ([0x015B] @ asc ''w.'', [0x015B] @ asc ''wi'' @ [0x0119] @ asc ''ty'')]"

text \<open>
  The body of the loop of \<open>_expand_abbreviations\<close>: the lookup key is the token in lower
  case with its trailing \<open>.,;:!?\<close> removed; a key of the table gives the expansion, any
  other key the token itself.
\<close>

definition word_lower :: "ustring \<Rightarrow> ustring" where
  "word_lower word = str_rstrip (asc ''.,;:!?'') (str_lower word)"

definition expand_word :: "ustring \<Rightarrow> ustring" where
  "expand_word word =
     (case map_of ABBREVIATIONS (word_lower word) of
        Some expansion \<Rightarrow> expansion
      | None \<Rightarrow> word)"

definition expand_abbreviations :: "ustring \<Rightarrow> ustring" where
  "expand_abbreviations text = str_join (asc '' '') (map expand_word (str_split text))"

text \<open>\<open>PLCleaner.__call__\<close>.\<close>

definition PLCleaner_call :: "ustring \<Rightarrow> ustring" where
  "PLCleaner_call text = expand_abbreviations (normalize_unicode (str_strip text))"

section \<open>The phoneme map\<close>

text \<open>The dictionary literal that \<open>PL_PHONEME_MAP\<close> is sorted from, in insertion order.\<close>

definition PL_PHONEME_DICT :: "(ustring \<times> ustring) list" where
  "PL_PHONEME_DICT =
   [(asc ''t^s'', [0x02A6]),
    (asc ''d^z'', [0x02A3]),
    (asc ''t^'' @ [0x0283], [0x02A7]),
    (asc ''d^'' @ [0x0292], [0x02A4]),
    (asc ''t^'' @ [0x0255], [0x02A8]),
    (asc ''d^'' @ [0x0291], [0x02A5]),
    (asc ''t'' @ [0x0283], [0x02A7]),
    (asc ''d'' @ [0x0292], [0x02A4]),
    (asc ''ts'', [0x02A6]),
    (asc ''dz'', [0x02A3]),
    (asc ''t'' @ [0x0255], [0x02A8]),
    (asc ''d'' @ [0x0291], [0x02A5]),
    ([0x025B, 0x0303], [0x025B, 0x0303]),
    ([0x0254, 0x0303], [0x0254, 0x0303]),
    ([0x0268], [0x0268]),
    ([0x0290], [0x0290]),
    ([0x0282], [0x0282]),
    ([0x0255], [0x0255]),
    ([0x0291], [0x0291]),
    ([0x0272], [0x0272]),
    ([0x02D0], [])]"

text \<open>
  \<open>sorted(items, key=lambda kv: -len(kv[0]))\<close>. Python's sort is stable, and so is
  \<open>sort_key\<close>: items with keys of one length stay in insertion order.
\<close>

definition PL_PHONEME_MAP :: "(ustring \<times> ustring) list" where
  "PL_PHONEME_MAP = sort_key (\<lambda>kv. - int (length (fst kv))) PL_PHONEME_DICT"

text \<open>
  The affricate notations: the first twelve entries of the dictionary, the six with a tie
  (under the comment \<open>Affricates with tie bars\<close>) and the six without (under
  \<open>Alternative representations\<close>).
\<close>

definition affricate_notations :: "(ustring \<times> ustring) list" where
  "affricate_notations = take 12 PL_PHONEME_DICT"

text \<open>
  A check on a list of rules and a string \<open>x\<close>, used to follow an occurrence of \<open>x\<close> through
  the rules: at each rule, no occurrence of the rule's pattern can lie across the first or
  the last character of what \<open>x\<close> has become, because that character is not among the
  pattern's later, respectively earlier, characters.
\<close>

fun splits_ok :: "(ustring \<times> ustring) list \<Rightarrow> ustring \<Rightarrow> bool" where
  "splits_ok [] x = True"
| "splits_ok ((old, new) # rules) x =
     (x \<noteq> [] \<and> old \<noteq> [] \<and> hd x \<notin> set (tl old) \<and> last x \<notin> set (butlast old) \<and>
      splits_ok rules (str_replace old new x))"

section \<open>Numerals\<close>

text \<open>
  An exception raised by the interpreter or by a collaborator. \<open>ValueError\<close> is what
  \<open>int\<close> raises; \<open>Raised name\<close> is any other exception, by the name of its class.
\<close>

datatype error = ValueError | Raised string

text \<open>
  The argument \<open>num2words\<close> is called with: an \<open>int\<close>, or the \<open>float\<close> that \<open>float(s)\<close>
  gives. \<open>float\<close> is a function of its argument, so the float is represented by the string
  \<open>s\<close> it was converted from.
\<close>

datatype number = PyInt int | PyFloat ustring

text \<open>
  The code points of the digits zero of Unicode 14.0 (general category Nd); the nine code
  points after each are the digits one to nine. \<open>\d\<close> in a \<open>str\<close> pattern matches exactly
  these characters, and \<open>int\<close> reads each by its decimal value.
\<close>

definition decimal_zeros :: "nat list" where
  "decimal_zeros =
   [48, 1632, 1776, 1984, 2406, 2534, 2662, 2790, 2918, 3046, 3174, 3302, 3430, 3558, 3664,
    3792, 3872, 4160, 4240, 6112, 6160, 6470, 6608, 6784, 6800, 6992, 7088, 7232, 7248,
    42528, 43216, 43264, 43472, 43504, 43600, 44016, 65296, 66720, 68912, 69734, 69872,
    69942, 70096, 70384, 70736, 70864, 71248, 71360, 71472, 71904, 72016, 72784, 73040,
    73120, 92768, 92864, 93008, 120782, 120792, 120802, 120812, 120822, 123200, 123632,
    125264, 130032]"

definition digit_value :: "nat \<Rightarrow> nat option" where
  "digit_value c =
     (case filter (\<lambda>z. z \<le> c \<and> c < z + 10) decimal_zeros of
        [] \<Rightarrow> None
      | z # _ \<Rightarrow> Some (c - z))"

definition is_digit :: "nat \<Rightarrow> bool" where
  "is_digit c \<longleftrightarrow> digit_value c \<noteq> None"

text \<open>
  \<open>int(num)\<close> for a string of decimal digits, the only strings the source passes. The
  interpreter raises \<open>ValueError\<close> when the string has more digits than
  \<open>sys.get_int_max_str_digits()\<close>; the limit \<open>0\<close> switches the check off (and stands for
  an interpreter without it).
\<close>

definition py_int :: "nat \<Rightarrow> ustring \<Rightarrow> error + int" where
  "py_int limit num =
     (if num = [] \<or> (\<exists>c \<in> set num. \<not> is_digit c) then Inl ValueError
      else if 0 < limit \<and> limit < length num then Inl ValueError
      else Inr (foldl (\<lambda>n c. 10 * n + int (the (digit_value c))) 0 num))"

text \<open>
  The match of \<open>\d+(?:[.,]\d+)?\<close> at the start of a string that begins with a digit: the
  longest run of digits, and then, when a \<open>.\<close> or \<open>,\<close> and a digit follow, the separator
  and the longest run of digits after it.
\<close>

definition number_match :: "ustring \<Rightarrow> ustring" where
  "number_match s =
     (let ds = takeWhile is_digit s in
      case dropWhile is_digit s of
        [] \<Rightarrow> ds
      | c # r \<Rightarrow>
          if (c = 0x2E \<or> c = 0x2C) \<and> takeWhile is_digit r \<noteq> []
          then ds @ c # takeWhile is_digit r
          else ds)"

text \<open>
  \<open>re.sub(r'\d+(?:[.,]\d+)?', f, text)\<close>: the matches are taken from left to right, each
  is replaced by what \<open>f\<close> returns for it, and the text between them is copied.
\<close>

function re_sub_number :: "(ustring \<Rightarrow> ustring) \<Rightarrow> ustring \<Rightarrow> ustring" where
  "re_sub_number f [] = []"
| "re_sub_number f (c # cs) =
     (if is_digit c
      then f (number_match (c # cs))
           @ re_sub_number f (drop (length (number_match (c # cs))) (c # cs))
      else c # re_sub_number f cs)"
  by pat_completeness auto
termination
  by (relation "measure (\<lambda>(f, s). length s)")
     (auto simp: number_match_def Let_def split: list.splits)

section \<open>PLG2P\<close>

text \<open>
  The converter object. \<open>phonemize\<close> is \<open>self.backend.phonemize\<close>, the transcription
  engine: it takes a list of texts and returns a list of transcriptions or raises.
  \<open>num2words\<close> is \<open>self.num2words\<close>: the spelling function, or \<open>None\<close> when the module
  could not be imported. \<open>int_max_str_digits\<close> is the interpreter's limit read by
  \<open>py_int\<close>.
\<close>

record PLG2P =
  version :: ustring
  phonemize :: "ustring list \<Rightarrow> error + ustring list"
  num2words :: "(number \<Rightarrow> error + ustring) option"
  int_max_str_digits :: nat


text \<open>
  \<open>replace_number\<close> of \<open>_convert_numbers\<close>. The bare \<open>except\<close> returns \<open>num\<close> whenever
  \<open>int\<close> or the spelling function raises. In the integer branch \<open>num\<close> is the match. In the
  decimal branch \<open>num\<close> has been rebound to \<open>num.replace(',', '.')\<close> before the spelling
  function is called, so there the \<open>except\<close> returns the match with its commas turned
  into dots.
\<close>

definition replace_number :: "nat \<Rightarrow> (number \<Rightarrow> error + ustring) \<Rightarrow> ustring \<Rightarrow> ustring" where
  "replace_number limit spell num =
     (if 0x2E \<notin> set num \<and> 0x2C \<notin> set num
      then (case (case py_int limit num of Inl e \<Rightarrow> Inl e | Inr n \<Rightarrow> spell (PyInt n)) of
              Inl e \<Rightarrow> num
            | Inr words \<Rightarrow> words)
      else (let num' = str_replace [0x2C] [0x2E] num
            in case spell (PyFloat num') of
                 Inl e \<Rightarrow> num'
               | Inr words \<Rightarrow> words))"

definition convert_numbers :: "nat \<Rightarrow> (number \<Rightarrow> error + ustring) \<Rightarrow> ustring \<Rightarrow> ustring" where
  "convert_numbers limit spell text = re_sub_number (replace_number limit spell) text"

text \<open>
  \<open>re.sub\<close> with the pattern \<open>(\S)\<close> followed by U+0329, and the replacement U+1D4A followed by
  group 1: from left to right, a character that is not whitespace and a following U+0329
  are replaced by U+1D4A and the character.
\<close>

fun re_sub_syllabic :: "ustring \<Rightarrow> ustring" where
  "re_sub_syllabic (c # d # cs) =
     (if \<not> isspace c \<and> d = 0x0329 then 0x1D4A # c # re_sub_syllabic cs
      else c # re_sub_syllabic (d # cs))"
| "re_sub_syllabic cs = cs"

text \<open>
  The part of \<open>PLG2P.__call__\<close> after \<open>ps = ps[0].strip()\<close>: the phoneme map, the tie
  characters, and the handling of syllabic consonants by version.
\<close>

definition apply_mappings :: "ustring \<Rightarrow> ustring \<Rightarrow> ustring" where
  "apply_mappings ver ps =
     (let ps = replace_all PL_PHONEME_MAP ps;
          ps = str_replace (asc ''^'') [] ps
      in if ver = asc ''2.0''
         then re_sub_syllabic (str_replace [810] [] (str_replace [809] [] ps))
         else str_replace (asc ''-'') [] ps)"

text \<open>
  The part of \<open>PLG2P.__call__\<close> after the engine has returned: \<open>ps[0].strip()\<close> and the
  mappings.
\<close>

definition postprocess :: "ustring \<Rightarrow> ustring \<Rightarrow> ustring" where
  "postprocess ver raw = apply_mappings ver (str_strip raw)"

text \<open>The part of \<open>PLG2P.__call__\<close> before the engine is called.\<close>

definition prepare :: "PLG2P \<Rightarrow> ustring \<Rightarrow> ustring" where
  "prepare self text =
     (let text = PLCleaner_call text;
          text = (case num2words self of
                    Some spell \<Rightarrow> convert_numbers (int_max_str_digits self) spell text
                  | None \<Rightarrow> text);
          text = str_replace [0xBB] [0x22] (str_replace [0xAB] [0x22] text);
          text = str_replace [0x22] [0x22] (str_replace [0x201E] [0x22] text)
      in text)"

text \<open>
  \<open>PLG2P.__call__\<close>. The result is the pair of the phoneme string and \<open>None\<close>, or the
  exception that leaves the call.
\<close>

definition PLG2P_call :: "PLG2P \<Rightarrow> ustring \<Rightarrow> error + (ustring \<times> unit option)" where
  "PLG2P_call self text =
     (case phonemize self [prepare self text] of
        Inl e \<Rightarrow> Inl e
      | Inr ps \<Rightarrow>
          (case ps of
             [] \<Rightarrow> Inr ([], None)
           | p # _ \<Rightarrow> Inr (postprocess (version self) p, None)))"


section \<open>Properties of the string operations\<close>

lemma replace_nonempty_same_aux: "new = old \<Longrightarrow> replace_nonempty old new s = s"
proof (induction old new s rule: replace_nonempty.induct)
  case (1 old new)
  show ?case by simp
next
  case (2 old new c cs)
  show ?case
  proof (cases "old \<noteq> [] \<and> prefix old (c # cs)")
    case True
    then obtain r where r: "c # cs = old @ r"
      by (auto simp: prefix_def)
    have "replace_nonempty old new (c # cs)
            = new @ replace_nonempty old new (drop (length old) (c # cs))"
      using True by simp
    also have "\<dots> = old @ drop (length old) (c # cs)"
      using 2(1) [OF True] 2(3) by simp
    also have "\<dots> = c # cs"
      by (simp add: r)
    finally show ?thesis .
  next
    case False
    then show ?thesis using 2(2) 2(3) by auto
  qed
qed

lemma replace_nonempty_same: "replace_nonempty old old s = s"
  by (rule replace_nonempty_same_aux) simp

lemma str_replace_same: "old \<noteq> [] \<Longrightarrow> str_replace old old s = s"
  by (simp add: str_replace_def replace_nonempty_same)

lemma normalize_unicode_id: "normalize_unicode s = s"
  by (simp add: normalize_unicode_def replace_all_def replacements_def str_replace_same)

lemma replace_nonempty_delete: "replace_nonempty [c] [] s = filter (\<lambda>x. x \<noteq> c) s"
  by (induction s) auto

lemma str_replace_delete: "str_replace [c] [] s = filter (\<lambda>x. x \<noteq> c) s"
  by (simp add: str_replace_def replace_nonempty_delete)

lemma re_sub_syllabic_id: "0x0329 \<notin> set s \<Longrightarrow> re_sub_syllabic s = s"
  by (induction s rule: re_sub_syllabic.induct) auto

lemma str_rstrip_last:
  "str_rstrip chars s = [] \<or> last (str_rstrip chars s) \<notin> set chars"
proof (cases "dropWhile (\<lambda>c. c \<in> set chars) (rev s)")
  case Nil
  then show ?thesis by (simp add: str_rstrip_def)
next
  case (Cons x xs)
  then have "\<not> x \<in> set chars"
    using hd_dropWhile [of "\<lambda>c. c \<in> set chars" "rev s"] by simp
  then show ?thesis using Cons by (simp add: str_rstrip_def)
qed

lemma word_lower_no_dot: "word_lower w = [] \<or> last (word_lower w) \<noteq> 0x2E"
  using str_rstrip_last [of "asc ''.,;:!?''" "str_lower w"]
  by (auto simp: word_lower_def asc_def)

subsection \<open>The phoneme map and the postprocessing, evaluated\<close>

lemma PL_PHONEME_MAP_eq:
  "PL_PHONEME_MAP =
   [([116, 94, 115], [678]), ([100, 94, 122], [675]), ([116, 94, 643], [679]),
    ([100, 94, 658], [676]), ([116, 94, 597], [680]), ([100, 94, 657], [677]),
    ([116, 643], [679]), ([100, 658], [676]), ([116, 115], [678]),
    ([100, 122], [675]), ([116, 597], [680]), ([100, 657], [677]),
    ([603, 771], [603, 771]), ([596, 771], [596, 771]), ([616], [616]),
    ([656], [656]), ([642], [642]), ([597], [597]), ([657], [657]),
    ([626], [626]), ([720], [])]"
  by (simp add: PL_PHONEME_MAP_def PL_PHONEME_DICT_def asc_def)

lemma postprocess_2_0:
  "postprocess (asc ''2.0'') raw =
     filter (\<lambda>x. x \<noteq> 810) (filter (\<lambda>x. x \<noteq> 809)
       (filter (\<lambda>x. x \<noteq> 0x5E) (replace_all PL_PHONEME_MAP (str_strip raw))))"
  by (simp add: postprocess_def apply_mappings_def Let_def str_replace_delete re_sub_syllabic_id
      asc_def)

lemma postprocess_other:
  "ver \<noteq> asc ''2.0'' \<Longrightarrow> postprocess ver raw =
     filter (\<lambda>x. x \<noteq> 0x2D)
       (filter (\<lambda>x. x \<noteq> 0x5E) (replace_all PL_PHONEME_MAP (str_strip raw)))"
  by (simp add: postprocess_def apply_mappings_def Let_def str_replace_delete asc_def)

subsection \<open>Blank input\<close>

lemma dropWhile_all: "\<forall>c \<in> set s. P c \<Longrightarrow> dropWhile P s = []"
  by (induction s) auto

lemma str_strip_blank: "\<forall>c \<in> set s. isspace c \<Longrightarrow> str_strip s = []"
  by (simp add: str_strip_def dropWhile_all)

lemma str_replace_Nil: "old \<noteq> [] \<Longrightarrow> str_replace old new [] = []"
  by (simp add: str_replace_def)

lemma replace_all_PL_Nil: "replace_all PL_PHONEME_MAP [] = []"
  by (simp add: replace_all_def PL_PHONEME_MAP_eq str_replace_Nil)

lemma postprocess_blank: "\<forall>c \<in> set raw. isspace c \<Longrightarrow> postprocess ver raw = []"
  by (simp add: postprocess_def apply_mappings_def Let_def str_strip_blank replace_all_PL_Nil
      str_replace_Nil asc_def)

lemma PLCleaner_call_blank: "\<forall>c \<in> set text. isspace c \<Longrightarrow> PLCleaner_call text = []"
  by (simp add: PLCleaner_call_def str_strip_blank normalize_unicode_id expand_abbreviations_def
      str_split_def)

lemma prepare_blank: "\<forall>c \<in> set text. isspace c \<Longrightarrow> prepare self text = []"
  by (simp add: prepare_def Let_def PLCleaner_call_blank convert_numbers_def str_replace_Nil
      split: option.splits)

subsection \<open>Characters that the postprocessing keeps\<close>

lemma count_list_notin: "c \<notin> set xs \<Longrightarrow> count_list xs c = 0"
  by (induction xs) auto

lemma count_replace_nonempty:
  "c \<notin> set old \<Longrightarrow> c \<notin> set new \<Longrightarrow>
   count_list (replace_nonempty old new s) c = count_list s c"
proof (induction old new s rule: replace_nonempty.induct)
  case (1 old new)
  show ?case by simp
next
  case (2 old new x xs)
  show ?case
  proof (cases "old \<noteq> [] \<and> prefix old (x # xs)")
    case True
    then obtain r where r: "x # xs = old @ r"
      by (auto simp: prefix_def)
    have "count_list (replace_nonempty old new (x # xs)) c
            = count_list (replace_nonempty old new (drop (length old) (x # xs))) c"
      using True 2(4) by (simp add: count_list_notin)
    also have "\<dots> = count_list (drop (length old) (x # xs)) c"
      using 2(1) [OF True 2(3) 2(4)] .
    also have "\<dots> = count_list (x # xs) c"
      using 2(3) by (simp add: r count_list_notin)
    finally show ?thesis .
  next
    case False
    then show ?thesis using 2(2) [OF False 2(3) 2(4)] by auto
  qed
qed

lemma count_str_replace:
  "old \<noteq> [] \<Longrightarrow> c \<notin> set old \<Longrightarrow> c \<notin> set new \<Longrightarrow>
   count_list (str_replace old new s) c = count_list s c"
  by (simp add: str_replace_def count_replace_nonempty)


lemma count_filter_keep: "P c \<Longrightarrow> count_list (filter P s) c = count_list s c"
  by (induction s) auto

lemma count_dropWhile: "\<not> P c \<Longrightarrow> count_list (dropWhile P s) c = count_list s c"
  by (induction s) auto

lemma count_str_strip: "\<not> isspace c \<Longrightarrow> count_list (str_strip s) c = count_list s c"
  by (simp add: str_strip_def count_dropWhile)


lemma count_replace_all_PL_032D:
  "count_list (replace_all PL_PHONEME_MAP s) 0x032D = count_list s 0x032D"
  by (simp add: replace_all_def PL_PHONEME_MAP_eq count_str_replace)

lemma count_postprocess_032D:
  "count_list (postprocess (asc ''2.0'') raw) 0x032D = count_list raw 0x032D"
  by (simp add: postprocess_2_0 count_filter_keep count_replace_all_PL_032D count_str_strip
      isspace_def)

subsection \<open>Numerals\<close>

lemma not_digit_separators: "\<not> is_digit 0x2E" "\<not> is_digit 0x2C"
  by (simp_all add: is_digit_def digit_value_def decimal_zeros_def)

lemma takeWhile_stop: "rest = [] \<or> \<not> P (hd rest) \<Longrightarrow> takeWhile P rest = []"
  by (cases rest) auto

lemma dropWhile_stop: "rest = [] \<or> \<not> P (hd rest) \<Longrightarrow> dropWhile P rest = rest"
  by (cases rest) auto

lemma takeWhile_run:
  "\<forall>c \<in> set ds. P c \<Longrightarrow> rest = [] \<or> \<not> P (hd rest) \<Longrightarrow> takeWhile P (ds @ rest) = ds"
  by (simp add: takeWhile_stop)

lemma dropWhile_run:
  "\<forall>c \<in> set ds. P c \<Longrightarrow> rest = [] \<or> \<not> P (hd rest) \<Longrightarrow> dropWhile P (ds @ rest) = rest"
  by (simp add: dropWhile_stop)

lemma number_match_decimal:
  assumes d1: "\<forall>c \<in> set ds1. is_digit c"
      and d2: "ds2 \<noteq> []" "\<forall>c \<in> set ds2. is_digit c"
      and sep: "sep = 0x2E \<or> sep = 0x2C"
      and rest: "rest = [] \<or> \<not> is_digit (hd rest)"
  shows "number_match (ds1 @ sep # ds2 @ rest) = ds1 @ sep # ds2"
proof -
  have nd: "\<not> is_digit sep"
    using sep not_digit_separators by auto
  have t1: "takeWhile is_digit (ds1 @ sep # ds2 @ rest) = ds1"
    using d1 nd by (intro takeWhile_run) auto
  have t2: "dropWhile is_digit (ds1 @ sep # ds2 @ rest) = sep # ds2 @ rest"
    using d1 nd by (intro dropWhile_run) auto
  have t3: "takeWhile is_digit (ds2 @ rest) = ds2"
    using d2 rest by (intro takeWhile_run) auto
  show ?thesis
    unfolding number_match_def Let_def t1 t2 using sep d2(1) by (simp add: t3)
qed

lemma number_match_integer:
  assumes d1: "\<forall>c \<in> set ds. is_digit c"
      and rest: "rest = [] \<or> (\<not> is_digit (hd rest) \<and> hd rest \<noteq> 0x2E \<and> hd rest \<noteq> 0x2C)"
  shows "number_match (ds @ rest) = ds"
proof -
  have t1: "takeWhile is_digit (ds @ rest) = ds"
    using d1 rest by (intro takeWhile_run) auto
  have t2: "dropWhile is_digit (ds @ rest) = rest"
    using d1 rest by (intro dropWhile_run) auto
  show ?thesis
    unfolding number_match_def Let_def t1 t2 using rest by (cases rest) auto
qed

lemma re_sub_number_match:
  assumes "ds \<noteq> []" "\<forall>c \<in> set ds. is_digit c" "number_match (ds @ s) = m"
  shows "re_sub_number f (ds @ s) = f m @ re_sub_number f (drop (length m) (ds @ s))"
proof -
  obtain d ds' where ds: "ds = d # ds'" using assms(1) by (cases ds) auto
  then have "is_digit d" using assms(2) by simp
  then show ?thesis using assms(3) ds by simp
qed

lemma replace_nonempty_char:
  "replace_nonempty [a] [b] s = map (\<lambda>c. if c = a then b else c) s"
  by (induction s) auto

lemma map_id_on: "\<forall>c \<in> set s. f c = c \<Longrightarrow> map f s = s"
  by (induction s) auto

lemma replace_number_decimal:
  assumes d1: "\<forall>c \<in> set ds1. is_digit c"
      and d2: "\<forall>c \<in> set ds2. is_digit c"
      and sep: "sep = 0x2E \<or> sep = 0x2C"
  shows "replace_number limit spell (ds1 @ sep # ds2) =
           (case spell (PyFloat (ds1 @ 0x2E # ds2)) of
              Inl e \<Rightarrow> ds1 @ 0x2E # ds2 | Inr words \<Rightarrow> words)"
proof -
  have n1: "\<forall>c \<in> set ds1. (if c = 0x2C then 0x2E else c) = c"
    using d1 not_digit_separators by auto
  have n2: "\<forall>c \<in> set ds2. (if c = 0x2C then 0x2E else c) = c"
    using d2 not_digit_separators by auto
  have "str_replace [0x2C] [0x2E] (ds1 @ sep # ds2) = ds1 @ 0x2E # ds2"
    using sep by (auto simp: str_replace_def replace_nonempty_char map_id_on [OF n1] map_id_on [OF n2])
  then show ?thesis
    using sep by (auto simp: replace_number_def Let_def)
qed

lemma replace_number_integer:
  assumes d1: "\<forall>c \<in> set ds. is_digit c"
  shows "replace_number limit spell ds =
           (case py_int limit ds of
              Inl e \<Rightarrow> ds
            | Inr n \<Rightarrow> (case spell (PyInt n) of Inl e \<Rightarrow> ds | Inr words \<Rightarrow> words))"
proof -
  have "0x2E \<notin> set ds" "0x2C \<notin> set ds"
    using d1 not_digit_separators by auto
  then show ?thesis
    by (auto simp: replace_number_def split: sum.splits)
qed

lemma replace_number_fallback:
  "replace_number limit spell num = num \<or>
   replace_number limit spell num = str_replace [0x2C] [0x2E] num \<or>
   (\<exists>n. spell n = Inr (replace_number limit spell num))"
  by (auto simp: replace_number_def Let_def split: sum.splits)

lemma number_match_prefix: "prefix (number_match xs) xs"
proof -
  show ?thesis
  proof (cases "dropWhile is_digit xs")
    case Nil
    show ?thesis
      unfolding number_match_def Let_def Nil by (simp add: takeWhile_is_prefix)
  next
    case (Cons c r)
    have r: "prefix (takeWhile is_digit r) r"
      by (rule takeWhile_is_prefix)
    have "prefix (takeWhile is_digit xs @ c # takeWhile is_digit r)
            (takeWhile is_digit xs @ c # r)"
      using r by simp
    moreover have "takeWhile is_digit xs @ c # r = xs"
      using takeWhile_dropWhile_id [of is_digit xs] by (simp only: Cons)
    ultimately have "prefix (takeWhile is_digit xs @ c # takeWhile is_digit r) xs"
      by (simp only:)
    then show ?thesis
      unfolding number_match_def Let_def Cons by (simp add: takeWhile_is_prefix)
  qed
qed

lemma number_match_chars:
  "c \<in> set (number_match xs) \<Longrightarrow> is_digit c \<or> c = 0x2E \<or> c = 0x2C"
  by (auto simp: number_match_def Let_def split: list.splits if_splits dest: set_takeWhileD)

lemma number_match_shorter:
  assumes "xs \<noteq> []" "\<not> is_digit (last xs)" "last xs \<noteq> 0x2E" "last xs \<noteq> 0x2C"
  shows "length (number_match xs) < length xs"
proof -
  have "number_match xs \<noteq> xs"
  proof
    assume "number_match xs = xs"
    then have "last xs \<in> set (number_match xs)"
      using assms(1) by simp
    then show False
      using number_match_chars assms by blast
  qed
  then have "strict_prefix (number_match xs) xs"
    using number_match_prefix by (simp add: strict_prefix_def)
  then show ?thesis
    by (rule prefix_length_less)
qed

lemma number_match_append:
  assumes "xs \<noteq> []" "\<not> is_digit (last xs)" "last xs \<noteq> 0x2E" "last xs \<noteq> 0x2C"
  shows "number_match (xs @ s) = number_match xs"
proof -
  have z: "last xs \<in> set xs" using assms(1) by simp
  have t: "takeWhile is_digit (xs @ s) = takeWhile is_digit xs"
    using z assms(2) by (rule takeWhile_append1)
  have d: "dropWhile is_digit (xs @ s) = dropWhile is_digit xs @ s"
    using z assms(2) by (rule dropWhile_append1)
  have ne: "dropWhile is_digit xs \<noteq> []"
    using z assms(2) by (auto simp: dropWhile_eq_Nil_conv)
  then obtain c r where cr: "dropWhile is_digit xs = c # r"
    by (cases "dropWhile is_digit xs") auto
  have lastcr: "last (c # r) = last xs"
    using cr ne by (metis last_appendR takeWhile_dropWhile_id)
  have tr: "takeWhile is_digit (r @ s) = takeWhile is_digit r" if "c = 0x2E \<or> c = 0x2C"
  proof (cases r)
    case Nil
    then show ?thesis using lastcr that assms(3,4) by auto
  next
    case (Cons x xr)
    then have "last r = last xs" using lastcr by simp
    moreover have "last r \<in> set r" using Cons by simp
    ultimately show ?thesis
      using assms(2) by (metis takeWhile_append1)
  qed
  show ?thesis
    unfolding number_match_def Let_def t d cr using tr by auto
qed

lemma re_sub_number_append:
  "pre = [] \<or> (\<not> is_digit (last pre) \<and> last pre \<noteq> 0x2E \<and> last pre \<noteq> 0x2C) \<Longrightarrow>
   re_sub_number f (pre @ s) = re_sub_number f pre @ re_sub_number f s"
proof (induction f pre rule: re_sub_number.induct)
  case (1 f)
  show ?case by simp
next
  case (2 f c cs)
  let ?xs = "c # cs"
  from 2(3) have inv: "\<not> is_digit (last ?xs)" "last ?xs \<noteq> 0x2E" "last ?xs \<noteq> 0x2C"
    by simp_all
  show ?case
  proof (cases "is_digit c")
    case True
    let ?m = "number_match ?xs"
    have m: "number_match (?xs @ s) = ?m"
      using inv by (intro number_match_append) simp_all
    have len: "length ?m < length ?xs"
      using inv by (intro number_match_shorter) simp_all
    then have rest_ne: "drop (length ?m) ?xs \<noteq> []"
      by simp
    have "last (drop (length ?m) ?xs) = last ?xs"
      using len by (rule last_drop)
    then have inv': "drop (length ?m) ?xs = [] \<or>
        (\<not> is_digit (last (drop (length ?m) ?xs)) \<and> last (drop (length ?m) ?xs) \<noteq> 0x2E \<and>
         last (drop (length ?m) ?xs) \<noteq> 0x2C)"
      using inv by simp
    have ih: "re_sub_number f (drop (length ?m) ?xs @ s) =
            re_sub_number f (drop (length ?m) ?xs) @ re_sub_number f s"
      using 2(1) [OF True inv'] .
    have dr: "drop (length ?m) (?xs @ s) = drop (length ?m) ?xs @ s"
      unfolding drop_append using len by simp
    have "re_sub_number f (?xs @ s) = f ?m @ re_sub_number f (drop (length ?m) (?xs @ s))"
      using True m by simp
    also have "\<dots> = f ?m @ re_sub_number f (drop (length ?m) ?xs) @ re_sub_number f s"
      by (simp only: dr ih)
    also have "\<dots> = re_sub_number f ?xs @ re_sub_number f s"
      using True by simp
    finally show ?thesis .
  next
    case False
    have "cs = [] \<or> (\<not> is_digit (last cs) \<and> last cs \<noteq> 0x2E \<and> last cs \<noteq> 0x2C)"
      using inv by (cases cs) auto
    then have "re_sub_number f (cs @ s) = re_sub_number f cs @ re_sub_number f s"
      using 2(2) [OF False] by blast
    then show ?thesis using False by simp
  qed
qed

lemma is_digit_chars:
  "is_digit 0x31" "is_digit 0x32" "is_digit 0x33" "is_digit 0x35"
  "\<not> is_digit 0x20" "\<not> is_digit 0x69" "\<not> is_digit 0x6B" "\<not> is_digit 0x6D"
  by (simp_all add: is_digit_def digit_value_def decimal_zeros_def)

text \<open>What \<open>_convert_numbers\<close> does at a numeral, by where the numeral stands.\<close>

lemma convert_numbers_numeral:
  assumes pre: "pre = [] \<or> (\<not> is_digit (last pre) \<and> last pre \<noteq> 0x2E \<and> last pre \<noteq> 0x2C)"
      and d1: "ds1 \<noteq> []" "\<forall>c \<in> set ds1. is_digit c"
      and d2: "ds2 \<noteq> []" "\<forall>c \<in> set ds2. is_digit c"
      and sep: "sep = 0x2E \<or> sep = 0x2C"
      and rest: "rest = [] \<or> \<not> is_digit (hd rest)"
  shows "convert_numbers limit spell (pre @ ds1 @ sep # ds2 @ rest) =
           convert_numbers limit spell pre
             @ (case spell (PyFloat (ds1 @ 0x2E # ds2)) of
                  Inl e \<Rightarrow> ds1 @ 0x2E # ds2
                | Inr words \<Rightarrow> words)
             @ convert_numbers limit spell rest
         \<and> (rest = [] \<or> (hd rest \<noteq> 0x2E \<and> hd rest \<noteq> 0x2C) \<longrightarrow>
            convert_numbers limit spell (pre @ ds1 @ rest) =
              convert_numbers limit spell pre
                @ (case py_int limit ds1 of
                     Inl e \<Rightarrow> ds1
                   | Inr n \<Rightarrow> (case spell (PyInt n) of Inl e \<Rightarrow> ds1 | Inr words \<Rightarrow> words))
                @ convert_numbers limit spell rest)
         \<and> (replace_number limit spell num = num \<or>
            replace_number limit spell num = str_replace [0x2C] [0x2E] num \<or>
            (\<exists>n. spell n = Inr (replace_number limit spell num)))"
proof (intro conjI impI)
  let ?m = "ds1 @ sep # ds2"
  have m: "number_match (ds1 @ sep # ds2 @ rest) = ?m"
    using d1(2) d2 sep rest by (rule number_match_decimal)
  have "re_sub_number (replace_number limit spell) (ds1 @ sep # ds2 @ rest) =
          replace_number limit spell ?m
            @ re_sub_number (replace_number limit spell) (drop (length ?m) (ds1 @ sep # ds2 @ rest))"
    using d1 m by (rule re_sub_number_match)
  moreover have "drop (length ?m) (ds1 @ sep # ds2 @ rest) = rest"
    by simp
  ultimately show "convert_numbers limit spell (pre @ ds1 @ sep # ds2 @ rest) =
           convert_numbers limit spell pre
             @ (case spell (PyFloat (ds1 @ 0x2E # ds2)) of
                  Inl e \<Rightarrow> ds1 @ 0x2E # ds2
                | Inr words \<Rightarrow> words)
             @ convert_numbers limit spell rest"
    using replace_number_decimal [OF d1(2) d2(2) sep, of limit spell]
    by (simp add: convert_numbers_def re_sub_number_append [OF pre])
next
  assume "rest = [] \<or> (hd rest \<noteq> 0x2E \<and> hd rest \<noteq> 0x2C)"
  then have "rest = [] \<or> (\<not> is_digit (hd rest) \<and> hd rest \<noteq> 0x2E \<and> hd rest \<noteq> 0x2C)"
    using rest by auto
  with d1(2) have m: "number_match (ds1 @ rest) = ds1"
    by (rule number_match_integer)
  have "re_sub_number (replace_number limit spell) (ds1 @ rest) =
          replace_number limit spell ds1
            @ re_sub_number (replace_number limit spell) (drop (length ds1) (ds1 @ rest))"
    using d1 m by (rule re_sub_number_match)
  then show "convert_numbers limit spell (pre @ ds1 @ rest) =
              convert_numbers limit spell pre
                @ (case py_int limit ds1 of
                     Inl e \<Rightarrow> ds1
                   | Inr n \<Rightarrow> (case spell (PyInt n) of Inl e \<Rightarrow> ds1 | Inr words \<Rightarrow> words))
                @ convert_numbers limit spell rest"
    using replace_number_integer [OF d1(2), of limit spell]
    by (simp add: convert_numbers_def re_sub_number_append [OF pre])
next
  show "replace_number limit spell num = num \<or>
        replace_number limit spell num = str_replace [0x2C] [0x2E] num \<or>
        (\<exists>n. spell n = Inr (replace_number limit spell num))"
    by (rule replace_number_fallback)
qed

subsection \<open>An occurrence followed through the rules\<close>

lemma replace_nonempty_append:
  assumes "\<And>u v. u \<noteq> [] \<Longrightarrow> v \<noteq> [] \<Longrightarrow> old = u @ v \<Longrightarrow> suffix u a \<Longrightarrow> prefix v b \<Longrightarrow> False"
  shows "replace_nonempty old new (a @ b) = replace_nonempty old new a @ replace_nonempty old new b"
  using assms
proof (induction old new a rule: replace_nonempty.induct)
  case (1 old new)
  show ?case by simp
next
  case (2 old new c cs)
  note cross = 2(3)
  show ?case
  proof (cases "old \<noteq> [] \<and> prefix old ((c # cs) @ b)")
    case True
    have inside: "prefix old (c # cs)"
    proof (rule ccontr)
      assume np: "\<not> prefix old (c # cs)"
      from True np obtain v where v: "old = (c # cs) @ v" "prefix v b"
        using prefix_append [of old "c # cs" b] by blast
      with np have "v \<noteq> []" by auto
      with v show False
        using cross [of "c # cs" v] by simp
    qed
    then have le: "length old \<le> length (c # cs)"
      by (rule prefix_length_le)
    have c1: "old \<noteq> [] \<and> prefix old (c # cs)"
      using True inside by simp
    have "\<And>u v. u \<noteq> [] \<Longrightarrow> v \<noteq> [] \<Longrightarrow> old = u @ v \<Longrightarrow>
            suffix u (drop (length old) (c # cs)) \<Longrightarrow> prefix v b \<Longrightarrow> False"
    proof -
      fix u v
      assume a: "u \<noteq> []" "v \<noteq> []" "old = u @ v" "prefix v b"
        and s: "suffix u (drop (length old) (c # cs))"
      have "suffix (drop (length old) (c # cs)) (c # cs)"
        by (rule suffix_drop)
      with s have "suffix u (c # cs)"
        by (rule suffix_order.trans)
      then show False
        using a cross [of u v] by simp
    qed
    then have ih: "replace_nonempty old new (drop (length old) (c # cs) @ b) =
            replace_nonempty old new (drop (length old) (c # cs)) @ replace_nonempty old new b"
      using 2(1) [OF c1] by blast
    have "replace_nonempty old new ((c # cs) @ b) =
            new @ replace_nonempty old new (drop (length old) ((c # cs) @ b))"
      using True by simp
    also have "drop (length old) ((c # cs) @ b) = drop (length old) (c # cs) @ b"
      unfolding drop_append using le by simp
    also have "new @ replace_nonempty old new (drop (length old) (c # cs) @ b) =
            replace_nonempty old new (c # cs) @ replace_nonempty old new b"
      using ih c1 by simp
    finally show ?thesis .
  next
    case False
    then have c2: "\<not> (old \<noteq> [] \<and> prefix old (c # cs))"
      using prefix_append [of old "c # cs" b] by blast
    have "\<And>u v. u \<noteq> [] \<Longrightarrow> v \<noteq> [] \<Longrightarrow> old = u @ v \<Longrightarrow> suffix u cs \<Longrightarrow> prefix v b \<Longrightarrow> False"
    proof -
      fix u v
      assume a: "u \<noteq> []" "v \<noteq> []" "old = u @ v" "prefix v b" and s: "suffix u cs"
      from s have "suffix u (c # cs)"
        by (rule suffix_ConsI)
      then show False
        using a cross [of u v] by simp
    qed
    then have "replace_nonempty old new (cs @ b) =
            replace_nonempty old new cs @ replace_nonempty old new b"
      using 2(2) [OF c2] by blast
    then show ?thesis using False c2 by (cases "old = []") simp_all
  qed
qed

lemma replace_nonempty_around:
  assumes x: "x \<noteq> []"
      and h: "hd x \<notin> set (tl old)"
      and l: "last x \<notin> set (butlast old)"
  shows "replace_nonempty old new (a @ x @ b) =
           replace_nonempty old new a @ replace_nonempty old new x @ replace_nonempty old new b"
proof -
  have left: "replace_nonempty old new (a @ (x @ b)) =
          replace_nonempty old new a @ replace_nonempty old new (x @ b)"
  proof (rule replace_nonempty_append)
    fix u v assume u: "u \<noteq> []" and v: "v \<noteq> []" and o: "old = u @ v" and p: "prefix v (x @ b)"
    from v p x have "hd v = hd x"
      by (cases v; cases x) auto
    moreover have "hd v \<in> set (tl old)"
      using u v o by (cases u) auto
    ultimately show False using h by simp
  qed
  have right: "replace_nonempty old new (x @ b) =
          replace_nonempty old new x @ replace_nonempty old new b"
  proof (rule replace_nonempty_append)
    fix u v assume u: "u \<noteq> []" and v: "v \<noteq> []" and o: "old = u @ v" and s: "suffix u x"
    from u s x have "last u = last x"
      by (auto simp: suffix_def)
    moreover have "last u \<in> set (butlast old)"
      using u v o by (simp add: butlast_append)
    ultimately show False using l by simp
  qed
  show ?thesis using left right by simp
qed

lemma replace_all_around:
  "splits_ok rules x \<Longrightarrow>
   replace_all rules (a @ x @ b) = replace_all rules a @ replace_all rules x @ replace_all rules b"
proof (induction rules arbitrary: a x b)
  case Nil
  show ?case by (simp add: replace_all_def)
next
  case (Cons r rules)
  obtain old new where r: "r = (old, new)" by (cases r)
  have ok: "x \<noteq> []" "old \<noteq> []" "hd x \<notin> set (tl old)" "last x \<notin> set (butlast old)"
    "splits_ok rules (str_replace old new x)"
    using Cons.prems r by auto
  have step: "str_replace old new (a @ x @ b) =
          str_replace old new a @ str_replace old new x @ str_replace old new b"
    using ok by (simp add: str_replace_def replace_nonempty_around)
  have unfold: "\<And>s. replace_all (r # rules) s = replace_all rules (str_replace old new s)"
    by (simp add: replace_all_def r)
  show ?case
    using Cons.IH [OF ok(5)] by (simp add: unfold step)
qed

lemma affricate_notations_eq:
  "affricate_notations =
   [([116, 94, 115], [678]), ([100, 94, 122], [675]), ([116, 94, 643], [679]),
    ([100, 94, 658], [676]), ([116, 94, 597], [680]), ([100, 94, 657], [677]),
    ([116, 643], [679]), ([100, 658], [676]), ([116, 115], [678]),
    ([100, 122], [675]), ([116, 597], [680]), ([100, 657], [677])]"
  by (simp add: affricate_notations_def PL_PHONEME_DICT_def asc_def)

lemma affricate_steps:
  assumes "(p, t) \<in> set affricate_notations"
  shows "splits_ok PL_PHONEME_MAP p \<and> replace_all PL_PHONEME_MAP p = t"
  using assms unfolding affricate_notations_eq set_simps
  by (elim insertE emptyE; simp add: PL_PHONEME_MAP_eq replace_all_def str_replace_def)

lemma affricate_shape:
  assumes "(p, t) \<in> set affricate_notations"
  shows "p \<noteq> [] \<and> \<not> isspace (hd p) \<and> \<not> isspace (last p) \<and>
         t \<in> {[0x02A6], [0x02A3], [0x02A7], [0x02A4], [0x02A8], [0x02A5]}"
  using assms unfolding affricate_notations_eq set_simps
  by (elim insertE emptyE; simp add: isspace_def)

lemma affricate_in_context:
  assumes "(p, t) \<in> set affricate_notations"
  shows "replace_all PL_PHONEME_MAP (a @ p @ b) =
           replace_all PL_PHONEME_MAP a @ t @ replace_all PL_PHONEME_MAP b"
  using affricate_steps [OF assms] replace_all_around [of PL_PHONEME_MAP p a b] by simp

lemma apply_mappings_filter:
  "apply_mappings ver s =
     filter (\<lambda>x. x \<noteq> 0x5E \<and> (if ver = asc ''2.0'' then x \<noteq> 809 \<and> x \<noteq> 810 else x \<noteq> 0x2D))
       (replace_all PL_PHONEME_MAP s)"
  by (simp add: apply_mappings_def Let_def str_replace_delete re_sub_syllabic_id asc_def)

lemma dropWhile_before: "\<not> P y \<Longrightarrow> dropWhile P (xs @ y # ys) = dropWhile P xs @ y # ys"
  by (induction xs) auto

lemma str_strip_around:
  assumes "p \<noteq> []" "\<not> isspace (hd p)" "\<not> isspace (last p)"
  shows "str_strip (a @ p @ b) = dropWhile isspace a @ p @ rev (dropWhile isspace (rev b))"
proof -
  obtain x xs where p1: "p = x # xs" using assms(1) by (cases p) auto
  obtain y ys where p2: "p = ys @ [y]" using assms(1) by (cases p rule: rev_cases) auto
  have x: "\<not> isspace x" using assms(2) p1 by simp
  have y: "\<not> isspace y" using assms(3) p2 by simp
  have "dropWhile isspace (a @ p @ b) = dropWhile isspace a @ p @ b"
    using dropWhile_before [of isspace x a "xs @ b"] x by (simp add: p1)
  moreover have "dropWhile isspace (rev (dropWhile isspace a @ p @ b)) =
          dropWhile isspace (rev b) @ rev (dropWhile isspace a @ p)"
    using dropWhile_before [of isspace y "rev b" "rev ys @ rev (dropWhile isspace a)"] y
    by (simp add: p2)
  ultimately show ?thesis
    by (simp add: str_strip_def)
qed

subsection \<open>The order of the rules\<close>

lemma replace_nonempty_absent:
  "old \<noteq> [] \<Longrightarrow> hd old \<notin> set x \<Longrightarrow> replace_nonempty old new x = x"
proof (induction x)
  case Nil
  show ?case by simp
next
  case (Cons c cs)
  have "\<not> prefix old (c # cs)"
    using Cons.prems by (cases old) auto
  then show ?case using Cons by simp
qed

lemma str_replace_disjoint:
  assumes x: "x \<noteq> []" and old: "old \<noteq> []" and d: "set x \<inter> set old = {}"
  shows "str_replace old new (a @ x @ b) = str_replace old new a @ x @ str_replace old new b"
proof -
  have "hd x \<in> set x" "last x \<in> set x"
    using x by simp_all
  moreover have "set (tl old) \<subseteq> set old"
    by (cases old) auto
  moreover have "set (butlast old) \<subseteq> set old"
    by (auto dest: in_set_butlastD)
  ultimately have h: "hd x \<notin> set (tl old)" and l: "last x \<notin> set (butlast old)"
    using d by auto
  have "hd old \<in> set old" using old by simp
  then have "hd old \<notin> set x" using d by auto
  then have "replace_nonempty old new x = x"
    using old by (simp add: replace_nonempty_absent)
  then show ?thesis
    using old by (simp add: str_replace_def replace_nonempty_around [OF x h l])
qed

lemma rules_longest_first:
  "sorted_wrt (\<lambda>r1 r2. length (fst r2) \<le> length (fst r1)) PL_PHONEME_MAP"
  by (simp add: PL_PHONEME_MAP_eq)

lemma rules_output_disjoint:
  "sorted_wrt (\<lambda>r1 r2. length (fst r2) < length (fst r1) \<longrightarrow>
      snd r1 \<noteq> [] \<and> fst r2 \<noteq> [] \<and> set (snd r1) \<inter> set (fst r2) = {}) PL_PHONEME_MAP"
  by (simp add: PL_PHONEME_MAP_eq)

lemma rules_sublist:
  assumes "(p, t) \<in> set PL_PHONEME_MAP" "(q, u) \<in> set PL_PHONEME_MAP" "q \<noteq> p" "sublist q p"
  shows "(p, t) \<in> set affricate_notations"
  using assms unfolding PL_PHONEME_MAP_eq affricate_notations_eq set_simps
  by (elim insertE emptyE; simp add: sublist_Cons_right)

section \<open>Claims\<close>

text \<open>
  C7. The unicode canonicalisation step of text cleaning is idempotent: for every
  string \<open>s\<close>, applying \<open>_normalize_unicode\<close> twice gives the same result as applying it
  once.
\<close>

theorem C7_normalize_unicode_idempotent:
  "normalize_unicode (normalize_unicode s) = normalize_unicode s"
  by (simp add: normalize_unicode_id)

text \<open>
  C2. Abbreviation lookup ignores letter case and trailing punctuation, and every entry of
  the table, also one whose key ends in \<open>.\<close> such as \<open>prof.\<close>, expands the tokens that
  match its key. The code removes the trailing punctuation from the token before the
  lookup and leaves it on the keys of the table: the text \<open>prof. Kowalski\<close> comes back
  unchanged, and no token at all has the lookup key \<open>prof.\<close>.
\<close>

theorem C2_dotted_key_never_matches:
  "expand_abbreviations (asc ''prof. Kowalski'') = asc ''prof. Kowalski'' \<and>
   word_lower w \<noteq> asc ''prof.''"
proof
  show "expand_abbreviations (asc ''prof. Kowalski'') = asc ''prof. Kowalski''"
    by (simp add: expand_abbreviations_def str_split_def isspace_def expand_word_def
        word_lower_def str_lower_def lower_cp_def str_rstrip_def ABBREVIATIONS_def asc_def)
  show "word_lower w \<noteq> asc ''prof.''"
    using word_lower_no_dot [of w] by (auto simp: asc_def)
qed

text \<open>
  C3. With version \<open>2.0\<close> a syllabicity mark U+0329 after a character that is not
  whitespace is turned into U+1D4A in front of that character. The code deletes every
  U+0329 before the substitution runs: the raw transcription \<open>n\<close> U+0329 gives \<open>n\<close>,
  not U+1D4A \<open>n\<close>.
\<close>

theorem C3_syllabic_mark_deleted:
  "postprocess (asc ''2.0'') [0x6E, 0x0329] = [0x6E] \<and>
   postprocess (asc ''2.0'') [0x6E, 0x0329] \<noteq> [0x1D4A, 0x6E]"
  by (simp add: postprocess_2_0 str_strip_def isspace_def replace_all_def PL_PHONEME_MAP_eq
      str_replace_def)

text \<open>
  C5, as stated: with version \<open>2.0\<close> no U+032D is left in the output. It fails: the raw
  transcription that is the single character U+032D is returned as it is.
\<close>

theorem C5_counterexample: "0x032D \<in> set (postprocess (asc ''2.0'') [0x032D])"
  by (simp add: postprocess_2_0 str_strip_def isspace_def replace_all_def PL_PHONEME_MAP_eq
      str_replace_def)

text \<open>
  C5, amended: with version \<open>2.0\<close> the two combining diacritics that the postprocessing
  deletes are U+0329 and U+032A (\<open>chr(809)\<close> and \<open>chr(810)\<close>): neither is left in the
  output, whatever the raw transcription. U+032D is not touched: the output has as many
  as the raw transcription.
\<close>

theorem C5_deleted_diacritics:
  "0x0329 \<notin> set (postprocess (asc ''2.0'') raw) \<and>
   0x032A \<notin> set (postprocess (asc ''2.0'') raw) \<and>
   count_list (postprocess (asc ''2.0'') raw) 0x032D = count_list raw 0x032D"
  using count_postprocess_032D [of raw] by (simp add: postprocess_2_0)


text \<open>
  C9. For an empty or whitespace-only input the conversion returns the empty phoneme
  string and \<open>None\<close>, not an error. The code has no branch for blank input: the engine is
  called with the empty text, and the result is empty when the engine answers the empty
  text with no output or with blank output.
\<close>

theorem C9_blank_input:
  assumes blank: "\<forall>c \<in> set text. isspace c"
      and engine: "phonemize self [[]] = Inr out"
      and out: "out = [] \<or> (\<forall>c \<in> set (hd out). isspace c)"
  shows "prepare self text = [] \<and> PLG2P_call self text = Inr ([], None)"
proof
  show p: "prepare self text = []"
    using blank by (rule prepare_blank)
  show "PLG2P_call self text = Inr ([], None)"
  proof (cases out)
    case Nil
    then show ?thesis using engine p by (simp add: PLG2P_call_def)
  next
    case (Cons r rs)
    then have "\<forall>c \<in> set r. isspace c" using out by simp
    then have "postprocess (version self) r = []" by (rule postprocess_blank)
    then show ?thesis using engine p Cons by (simp add: PLG2P_call_def)
  qed
qed

theorem C9_blank_input_witness:
  "PLG2P_call \<lparr>version = asc ''2.0'', phonemize = (\<lambda>ts. Inr ts), num2words = None,
                int_max_str_digits = 0\<rparr> (asc ''   '') = Inr ([], None)"
  using C9_blank_input [of "asc ''   ''"
      "\<lparr>version = asc ''2.0'', phonemize = (\<lambda>ts. Inr ts), num2words = None,
        int_max_str_digits = 0\<rparr>" "[[]]"]
  by (simp add: asc_def isspace_def)



text \<open>
  C8. A numeral with a separator is one match and is spelled as one decimal number, and
  a numeral that cannot be parsed or spelled is left as it was. The first part holds. The
  second holds for a numeral without a separator and for one with a \<open>.\<close>; for a numeral
  with a \<open>,\<close> the code returns the text with the comma turned into a dot: with a spelling
  function that raises, \<open>12,5 km\<close> becomes \<open>12.5 km\<close>.
\<close>

theorem C8_failed_spelling_rewrites_comma:
  "convert_numbers 0 (\<lambda>n. Inl (Raised ''OverflowError'')) (asc ''12,5 km'') = asc ''12.5 km'' \<and>
   convert_numbers 0 (\<lambda>n. Inl (Raised ''OverflowError'')) (asc ''12,5 km'') \<noteq> asc ''12,5 km'' \<and>
   convert_numbers 0 (\<lambda>n. Inl (Raised ''OverflowError'')) (asc ''12.5 km'') = asc ''12.5 km'' \<and>
   convert_numbers 0 (\<lambda>n. Inl (Raised ''OverflowError'')) (asc ''12 km'') = asc ''12 km''"
  by (simp add: asc_def is_digit_chars convert_numbers_def number_match_def replace_number_def
      Let_def str_replace_def split: sum.splits)

text \<open>
  C6. Each of the six affricate notations with a tie and each of the six without, wherever
  it occurs in the raw transcription, becomes one of the six affricate symbols: the
  mappings of what stands before it and of what stands after it are not affected. The
  output has no tie character \<open>^\<close>.
\<close>

theorem C6_affricates_canonical:
  assumes "(p, t) \<in> set affricate_notations"
  shows "t \<in> {[0x02A6], [0x02A3], [0x02A7], [0x02A4], [0x02A8], [0x02A5]} \<and>
         apply_mappings ver (a @ p @ b) = apply_mappings ver a @ t @ apply_mappings ver b \<and>
         postprocess ver (a @ p @ b) =
           apply_mappings ver (dropWhile isspace a) @ t
             @ apply_mappings ver (rev (dropWhile isspace (rev b))) \<and>
         0x5E \<notin> set (postprocess ver raw)"
proof -
  note shape = affricate_shape [OF assms]
  have keep: "filter (\<lambda>x. x \<noteq> 0x5E \<and> (if ver = asc ''2.0'' then x \<noteq> 809 \<and> x \<noteq> 810 else x \<noteq> 0x2D)) t = t"
    using shape by auto
  have ctx: "\<And>a b. apply_mappings ver (a @ p @ b) = apply_mappings ver a @ t @ apply_mappings ver b"
    using keep by (simp add: apply_mappings_filter affricate_in_context [OF assms])
  have "postprocess ver (a @ p @ b) =
          apply_mappings ver (dropWhile isspace a @ p @ rev (dropWhile isspace (rev b)))"
    using shape by (simp add: postprocess_def str_strip_around)
  then have post: "postprocess ver (a @ p @ b) =
           apply_mappings ver (dropWhile isspace a) @ t
             @ apply_mappings ver (rev (dropWhile isspace (rev b)))"
    by (simp only: ctx)
  have "0x5E \<notin> set (postprocess ver raw)"
    by (simp add: postprocess_def apply_mappings_filter)
  then show ?thesis
    using shape ctx post by blast
qed

theorem C6_affricates_canonical_witness:
  "postprocess (asc ''2.0'') (asc '' at^sdz^ '') = asc ''a'' @ [0x02A6, 0x02A3]"
  using C6_affricates_canonical [of "asc ''t^s''" "[0x02A6]" "asc ''2.0''" "asc '' a''" "asc ''dz^ ''"]
  by (simp add: affricate_notations_eq asc_def isspace_def apply_mappings_filter
      PL_PHONEME_MAP_eq replace_all_def str_replace_def)

text \<open>
  C4. The rules of the phoneme map are applied one after the other, each to the whole
  string, the longest patterns first: of two rules, the later one never has the longer
  pattern. What an earlier rule with a longer pattern has put into the string is left as
  it is by a later rule with a shorter pattern, whatever stands around it. Where the
  pattern of one rule is a part of the pattern of another, an occurrence of the longer
  pattern gets the longer pattern's replacement.
\<close>

theorem C4_longest_first:
  assumes ij: "i < j" "j < length PL_PHONEME_MAP"
  shows "length (fst (PL_PHONEME_MAP ! j)) \<le> length (fst (PL_PHONEME_MAP ! i)) \<and>
         replace_all (r # rules) s = replace_all rules (str_replace (fst r) (snd r) s) \<and>
         (length (fst (PL_PHONEME_MAP ! j)) < length (fst (PL_PHONEME_MAP ! i)) \<longrightarrow>
            str_replace (fst (PL_PHONEME_MAP ! j)) (snd (PL_PHONEME_MAP ! j))
                (a @ snd (PL_PHONEME_MAP ! i) @ b) =
              str_replace (fst (PL_PHONEME_MAP ! j)) (snd (PL_PHONEME_MAP ! j)) a
                @ snd (PL_PHONEME_MAP ! i)
                @ str_replace (fst (PL_PHONEME_MAP ! j)) (snd (PL_PHONEME_MAP ! j)) b) \<and>
         ((p, t) \<in> set PL_PHONEME_MAP \<and> (q, u) \<in> set PL_PHONEME_MAP \<and> q \<noteq> p \<and> sublist q p \<longrightarrow>
            replace_all PL_PHONEME_MAP (c @ p @ d) =
              replace_all PL_PHONEME_MAP c @ t @ replace_all PL_PHONEME_MAP d)"
proof (intro conjI impI)
  show "length (fst (PL_PHONEME_MAP ! j)) \<le> length (fst (PL_PHONEME_MAP ! i))"
    using sorted_wrt_nth_less [OF rules_longest_first ij] .
next
  show "replace_all (r # rules) s = replace_all rules (str_replace (fst r) (snd r) s)"
    by (simp add: replace_all_def case_prod_beta)
next
  assume shorter: "length (fst (PL_PHONEME_MAP ! j)) < length (fst (PL_PHONEME_MAP ! i))"
  have "length (fst (PL_PHONEME_MAP ! j)) < length (fst (PL_PHONEME_MAP ! i)) \<longrightarrow>
          snd (PL_PHONEME_MAP ! i) \<noteq> [] \<and> fst (PL_PHONEME_MAP ! j) \<noteq> [] \<and>
          set (snd (PL_PHONEME_MAP ! i)) \<inter> set (fst (PL_PHONEME_MAP ! j)) = {}"
    using sorted_wrt_nth_less [OF rules_output_disjoint ij] .
  with shorter have "snd (PL_PHONEME_MAP ! i) \<noteq> []" "fst (PL_PHONEME_MAP ! j) \<noteq> []"
    "set (snd (PL_PHONEME_MAP ! i)) \<inter> set (fst (PL_PHONEME_MAP ! j)) = {}"
    by simp_all
  then show "str_replace (fst (PL_PHONEME_MAP ! j)) (snd (PL_PHONEME_MAP ! j))
                (a @ snd (PL_PHONEME_MAP ! i) @ b) =
              str_replace (fst (PL_PHONEME_MAP ! j)) (snd (PL_PHONEME_MAP ! j)) a
                @ snd (PL_PHONEME_MAP ! i)
                @ str_replace (fst (PL_PHONEME_MAP ! j)) (snd (PL_PHONEME_MAP ! j)) b"
    by (rule str_replace_disjoint)
next
  assume "(p, t) \<in> set PL_PHONEME_MAP \<and> (q, u) \<in> set PL_PHONEME_MAP \<and> q \<noteq> p \<and> sublist q p"
  then have "(p, t) \<in> set affricate_notations"
    using rules_sublist by blast
  then show "replace_all PL_PHONEME_MAP (c @ p @ d) =
              replace_all PL_PHONEME_MAP c @ t @ replace_all PL_PHONEME_MAP d"
    by (rule affricate_in_context)
qed

theorem C4_longest_first_witness:
  "length [0x0255 :: nat] \<le> length (asc ''t^'' @ [0x0255]) \<and>
   str_replace [0x0255] [0x0255] (asc ''x'' @ [0x02A8] @ asc ''y'') = asc ''x'' @ [0x02A8] @ asc ''y'' \<and>
   replace_all PL_PHONEME_MAP (asc ''at^'' @ [0x0255] @ asc ''b'' @ [0x0255]) =
     asc ''a'' @ [0x02A8] @ asc ''b'' @ [0x0255]"
  using C4_longest_first [of 4 17 "([0x0255], [0x0255])" "[]" "[]" "asc ''x''" "asc ''y''"
      "asc ''t^'' @ [0x0255]" "[0x02A8]" "[0x0255]" "[0x0255]" "asc ''a''" "asc ''b'' @ [0x0255]"]
  by (simp add: PL_PHONEME_MAP_eq asc_def sublist_Cons_right replace_all_def str_replace_def)


end
